theory Spec2Isabelle
  imports Main
begin

section \<open>Boolean formulas (src/main/formulas.py)\<close>

text \<open>
  A formula is an instance of class \<open>And\<close> or of class \<open>Or\<close>; both carry the list of
  positive variables, the list of negative variables and the list of sub-formulas. The
  mother class \<open>Operator\<close> is abstract, so the tag \<open>type\<close> of a node is fixed by its class.
  Variables and literals are Python integers. A formula is modelled as a tree value: the
  nodes of a tree are distinct objects, so the rewriting of a child in place is seen by
  the compilation of its parent only.
\<close>

datatype formula =
    And "int list" "int list" "formula list"
  | Or "int list" "int list" "formula list"

fun type :: "formula \<Rightarrow> string" where
  "type (And p n fs) = ''AND''"
| "type (Or p n fs) = ''OR''"

fun positiveVariables :: "formula \<Rightarrow> int list" where
  "positiveVariables (And p n fs) = p"
| "positiveVariables (Or p n fs) = p"

fun negativeVariables :: "formula \<Rightarrow> int list" where
  "negativeVariables (And p n fs) = n"
| "negativeVariables (Or p n fs) = n"

fun qbf_formulas :: "formula \<Rightarrow> formula list" where
  "qbf_formulas (And p n fs) = fs"
| "qbf_formulas (Or p n fs) = fs"

definition getpositiveVariables :: "formula \<Rightarrow> int list" where
  "getpositiveVariables f = positiveVariables f"

definition getnegativeVariables :: "formula \<Rightarrow> int list" where
  "getnegativeVariables f = negativeVariables f"

subsection \<open>Compilation to clauses\<close>

text \<open>
  Lines 202 to 215 of \<open>Or.aux_operatorToCnf\<close>: the child at index \<open>i\<close> is rewritten with
  the variable \<open>var = NB_VARS + i\<close>. A child of type OR gets \<open>var\<close> appended to its negative
  variables; a child of type AND is replaced by the conjunction of one small disjunction
  per positive variable, per negative variable and per sub-formula.
\<close>

fun distribute :: "formula \<Rightarrow> int \<Rightarrow> formula" where
  "distribute (Or p n fs) var = Or p (n @ [var]) fs"
| "distribute (And p n fs) var =
     And [] []
       (map (\<lambda>positiveVariable. Or [positiveVariable] [var] []) p @
        map (\<lambda>negativeVariable. Or [] [negativeVariable, var] []) n @
        map (\<lambda>formula. Or [] [var] [formula]) fs)"

text \<open>The rewriting of all the children of a node, the child at index \<open>i\<close> with \<open>s + i\<close>.\<close>

definition distribute_all :: "formula list \<Rightarrow> int \<Rightarrow> formula list" where
  "distribute_all fs s = map (\<lambda>i. distribute (fs ! i) (s + int i)) [0..<length fs]"

text \<open>
  The measure of the termination proof: \<open>work f\<close> bounds the number of calls made when \<open>f\<close>
  is compiled, \<open>work_d f\<close> the number made when the rewritten \<open>f\<close> is compiled.
\<close>

fun work :: "formula \<Rightarrow> nat" and work_d :: "formula \<Rightarrow> nat" where
  "work (And p n fs) = 2 + sum_list (map work fs)"
| "work (Or p n fs) = 3 + sum_list (map (\<lambda>f. work_d f + work f) fs)"
| "work_d (And p n fs) =
     2 + 3 * (length p + length n) + sum_list (map (\<lambda>f. 3 + work_d f + work f) fs)"
| "work_d (Or p n fs) = 3 + sum_list (map (\<lambda>f. work_d f + work f) fs)"

lemma work_distribute: "work (distribute f var) = work_d f"
proof (cases f)
  case (And p n fs)
  have "sum_list (map (work \<circ> (\<lambda>v. Or [v] [var] [])) p) = 3 * length p"
    by (induction p) auto
  moreover have "sum_list (map (work \<circ> (\<lambda>v. Or [] [v, var] [])) n) = 3 * length n"
    by (induction n) auto
  moreover have "sum_list (map (work \<circ> (\<lambda>g. Or [] [var] [g])) fs)
      = sum_list (map (\<lambda>g. 3 + work_d g + work g) fs)"
    by (induction fs) auto
  ultimately show ?thesis using And by simp
next
  case (Or p n fs)
  then show ?thesis by simp
qed

lemma work_distribute_list:
  "sum_list (map work (map (\<lambda>i. distribute (fs ! i) (s + int i)) [0..<length fs]))
     = sum_list (map work_d fs)"
proof -
  have "map work (map (\<lambda>i. distribute (fs ! i) (s + int i)) [0..<length fs])
      = map (\<lambda>i. work_d (fs ! i)) [0..<length fs]"
    by (simp add: work_distribute)
  also have "\<dots> = map work_d fs"
    by (rule nth_equalityI) auto
  finally show ?thesis by simp
qed

lemma sum_list_work_d_le:
  "sum_list (map work_d fs) \<le> sum_list (map (\<lambda>f. work_d f + work f) fs)"
  by (induction fs) auto

lemma work_pos: "0 < work f"
  by (cases f) auto

text \<open>
  The counter \<open>NB_VARS\<close> is a global of the module: every function takes its value and
  returns the new one beside the clauses. \<open>aux_list\<close> is the loop of \<open>And.aux_operatorToCnf\<close>
  over the sub-formulas.
\<close>

function aux_operatorToCnf :: "formula \<Rightarrow> int \<Rightarrow> int list list \<times> int"
  and aux_list :: "formula list \<Rightarrow> int \<Rightarrow> int list list \<times> int"
where
  "aux_operatorToCnf (And p n fs) NB_VARS =
     (let dnfPositiveVariables = map (\<lambda>v. [v]) p;
          dnfNegativeVariables = map (\<lambda>v. [v * -1]) n;
          r = aux_list fs NB_VARS
      in (dnfPositiveVariables @ dnfNegativeVariables @ fst r, snd r))"
| "aux_operatorToCnf (Or p n fs) NB_VARS =
     (if length fs = 1 \<and> type (fs ! 0) = ''OR''
         \<and> length (getpositiveVariables (fs ! 0)) = 0
         \<and> length (getnegativeVariables (fs ! 0)) = 0
      then aux_operatorToCnf (Or p n (qbf_formulas (fs ! 0))) NB_VARS
      else
        let newVariables = map (\<lambda>i. NB_VARS + int i) [0..<length fs];
            dnf = p @ newVariables @ map (\<lambda>v. v * -1) n;
            fs' = map (\<lambda>i. distribute (fs ! i) (NB_VARS + int i)) [0..<length fs];
            NB_VARS' = NB_VARS + int (length fs)
        in if length fs = 0 then ([dnf], NB_VARS')
           else let r = aux_operatorToCnf (And [] [] fs') NB_VARS'
                in (fst r @ [dnf], snd r))"
| "aux_list [] NB_VARS = ([], NB_VARS)"
| "aux_list (formula # fs) NB_VARS =
     (let r = aux_operatorToCnf formula NB_VARS;
          rest = aux_list fs (snd r)
      in (fst r @ fst rest, snd rest))"
  by pat_completeness auto

termination
proof (relation "measure (\<lambda>x. case x of
          Inl (f, s) \<Rightarrow> work f
        | Inr (fs, s) \<Rightarrow> 1 + sum_list (map work fs))", goal_cases)
  case 1
  show ?case by simp
next
  case (2 p n fs NB_VARS)
  show ?case by simp
next
  case (3 p n fs NB_VARS)
  then obtain q m gs where c: "fs = [Or q m gs]"
    by (cases fs; cases "hd fs") (auto simp: length_Suc_conv)
  then show ?case by simp
next
  case (4 p n fs NB_VARS newVariables dnf fs' NB_VARS')
  show ?case
    using 4 work_distribute_list [of fs NB_VARS] sum_list_work_d_le [of fs]
    by simp
next
  case (5 formula fs NB_VARS)
  show ?case by simp
next
  case (6 formula fs NB_VARS)
  show ?case using work_pos [of formula] by simp
qed

definition operatorToCnf :: "formula \<Rightarrow> int \<Rightarrow> int list list \<times> int" where
  "operatorToCnf self nbVars = aux_operatorToCnf self nbVars"

subsection \<open>Simplification\<close>

text \<open>
  \<open>Operator.simplify\<close>. The loop over the sub-formulas is \<open>flatten\<close>: a sub-formula of the
  type of \<open>self\<close> gives its variables and its own sub-formulas to \<open>self\<close>, any other
  sub-formula is kept. The state of the loop is the triple of the negative variables, the
  positive variables and \<open>newQbflist\<close>. The tag of \<open>self\<close> is AND or OR, so the last test
  of the source, on the tag OR, is the else branch. \<open>nodes\<close> is the measure of the
  termination proof.
\<close>

fun nodes :: "formula \<Rightarrow> nat" where
  "nodes (And p n fs) = 1 + sum_list (map nodes fs)"
| "nodes (Or p n fs) = 1 + sum_list (map nodes fs)"

fun flatten :: "string \<Rightarrow> formula list \<Rightarrow> int list \<times> int list \<times> formula list
    \<Rightarrow> int list \<times> int list \<times> formula list" where
  "flatten t [] acc = acc"
| "flatten t (qbf # rest) (negativeVars, positiveVars, newQbflist) =
     (if type qbf = t
      then flatten t rest (negativeVars @ negativeVariables qbf,
                           positiveVars @ positiveVariables qbf,
                           newQbflist @ qbf_formulas qbf)
      else flatten t rest (negativeVars, positiveVars, newQbflist @ [qbf]))"

lemma nodes_qbf_formulas: "sum_list (map nodes (qbf_formulas f)) < nodes f"
  by (cases f) simp_all

lemma nodes_flatten:
  "sum_list (map nodes (snd (snd (flatten t fs acc))))
     \<le> sum_list (map nodes (snd (snd acc))) + sum_list (map nodes fs)"
proof (induction fs arbitrary: acc)
  case Nil
  show ?case by simp
next
  case (Cons qbf rest)
  obtain ng ps nw where acc: "acc = (ng, ps, nw)" by (cases acc)
  show ?case
  proof (cases "type qbf = t")
    case True
    have "sum_list (map nodes (snd (snd (flatten t rest
            (ng @ negativeVariables qbf, ps @ positiveVariables qbf, nw @ qbf_formulas qbf)))))
        \<le> sum_list (map nodes (nw @ qbf_formulas qbf)) + sum_list (map nodes rest)"
      using Cons.IH [of "(ng @ negativeVariables qbf, ps @ positiveVariables qbf,
          nw @ qbf_formulas qbf)"] by simp
    then show ?thesis
      using True acc nodes_qbf_formulas [of qbf] by simp
  next
    case False
    have "sum_list (map nodes (snd (snd (flatten t rest (ng, ps, nw @ [qbf])))))
        \<le> sum_list (map nodes (nw @ [qbf])) + sum_list (map nodes rest)"
      using Cons.IH [of "(ng, ps, nw @ [qbf])"] by simp
    then show ?thesis using False acc by simp
  qed
qed

lemma nodes_member: "x \<in> set xs \<Longrightarrow> nodes x \<le> sum_list (map nodes xs)"
  by (induction xs) auto

function simplify :: "formula \<Rightarrow> formula" where
  "simplify self =
     (if length (qbf_formulas self) = 0 then self
      else if length (qbf_formulas self) = 1 \<and> length (positiveVariables self) = 0
              \<and> length (negativeVariables self) = 0
      then simplify (qbf_formulas self ! 0)
      else
        let r = flatten (type self) (qbf_formulas self)
                  (negativeVariables self, positiveVariables self, []);
            simplifiedQbflist = map simplify (snd (snd r))
        in if type self = ''AND''
           then And (fst (snd r)) (fst r) simplifiedQbflist
           else Or (fst (snd r)) (fst r) simplifiedQbflist)"
  by pat_completeness auto

termination
proof (relation "measure nodes", goal_cases)
  case 1
  show ?case by simp
next
  case (2 self)
  then have "qbf_formulas self ! 0 \<in> set (qbf_formulas self)" by simp
  then have "nodes (qbf_formulas self ! 0) \<le> sum_list (map nodes (qbf_formulas self))"
    by (rule nodes_member)
  then show ?case using nodes_qbf_formulas [of self] by simp
next
  case (3 self r x)
  have "nodes x \<le> sum_list (map nodes (snd (snd r)))"
    using 3 by (intro nodes_member) simp
  also have "\<dots> \<le> sum_list (map nodes (qbf_formulas self))"
    using nodes_flatten [of "type self" "qbf_formulas self"
        "(negativeVariables self, positiveVariables self, [])"] 3 by simp
  also have "\<dots> < nodes self" by (rule nodes_qbf_formulas)
  finally show ?case by simp
qed

declare simplify.simps [simp del]

subsection \<open>Semantics of formulas and clauses\<close>

text \<open>
  An assignment gives a truth value to every variable number. An AND node is true when
  every positive variable is true, every negative variable is false and every sub-formula
  is true; an OR node is true when one of them is. A literal is a signed integer, negative
  for a negated variable; a clause is the disjunction of its literals and a clause list
  the conjunction of its clauses. \<open>variables\<close> collects the variable numbers of a formula,
  \<open>magnitudes\<close> the absolute values of the literals of a clause list.
\<close>

fun eval :: "(int \<Rightarrow> bool) \<Rightarrow> formula \<Rightarrow> bool" where
  "eval A (And p n fs) = (list_all A p \<and> list_all (\<lambda>v. \<not> A v) n \<and> list_all (eval A) fs)"
| "eval A (Or p n fs) = (list_ex A p \<or> list_ex (\<lambda>v. \<not> A v) n \<or> list_ex (eval A) fs)"

definition lit_true :: "(int \<Rightarrow> bool) \<Rightarrow> int \<Rightarrow> bool" where
  "lit_true A l = (if 0 < l then A l else \<not> A (- l))"

definition clause_true :: "(int \<Rightarrow> bool) \<Rightarrow> int list \<Rightarrow> bool" where
  "clause_true A c = list_ex (lit_true A) c"

definition cnf_true :: "(int \<Rightarrow> bool) \<Rightarrow> int list list \<Rightarrow> bool" where
  "cnf_true A cs = list_all (clause_true A) cs"

fun variables :: "formula \<Rightarrow> int set" where
  "variables (And p n fs) = set p \<union> set n \<union> (\<Union> (set (map variables fs)))"
| "variables (Or p n fs) = set p \<union> set n \<union> (\<Union> (set (map variables fs)))"

definition magnitudes :: "int list list \<Rightarrow> int set" where
  "magnitudes cs = abs ` (\<Union> (set (map set cs)))"

definition variables_list :: "formula list \<Rightarrow> int set" where
  "variables_list fs = \<Union> (set (map variables fs))"

section \<open>Conformance artefacts (da4py/main/conformanceArtefacts.py)\<close>

subsection \<open>The wait transition\<close>

text \<open>
  The Petri net is an object of the process mining library: a set of places, a set of
  transitions and a set of arcs, each place and transition with its sets of incoming and
  outgoing arcs. The sets are lists here (an element added is a new object, so adding is
  appending), a place or a transition is referred to by its name, and an arc is the pair
  of its source and its target. \<open>add_wait_loop\<close> is the loop of \<open>__add_wait_net\<close> over the
  places; its state is the places already visited, the arcs of the net and the wait
  transition.
\<close>

definition WAIT_TRANSITION :: string where
  "WAIT_TRANSITION = ''w''"

datatype ref = PlaceRef string | TransitionRef string

type_synonym Arc = "ref \<times> ref"

record element =
  name :: string
  label :: "string option"
  in_arcs :: "Arc list"
  out_arcs :: "Arc list"

record PetriNet =
  places :: "element list"
  transitions :: "element list"
  arcs :: "Arc list"

datatype error = AttributeError

definition Transition :: "string \<Rightarrow> string \<Rightarrow> element" where
  "Transition n l = \<lparr>name = n, label = Some l, in_arcs = [], out_arcs = []\<rparr>"

fun add_wait_loop :: "element list \<Rightarrow> element list \<times> Arc list \<times> element
    \<Rightarrow> element list \<times> Arc list \<times> element" where
  "add_wait_loop [] st = st"
| "add_wait_loop (place # rest) (seen, net_arcs, wait_transition) =
     (if length (out_arcs place) = 0 then
        let arcIn = (PlaceRef (name place), TransitionRef (name wait_transition));
            arcOut = (TransitionRef (name wait_transition), PlaceRef (name place))
        in add_wait_loop rest
             (seen @ [place\<lparr>out_arcs := out_arcs place @ [arcIn],
                            in_arcs := in_arcs place @ [arcOut]\<rparr>],
              net_arcs @ [arcIn, arcOut],
              wait_transition\<lparr>in_arcs := in_arcs wait_transition @ [arcIn],
                              out_arcs := out_arcs wait_transition @ [arcOut]\<rparr>)
      else add_wait_loop rest (seen @ [place], net_arcs, wait_transition))"

definition add_wait_net :: "PetriNet \<Rightarrow> PetriNet \<times> element" where
  "add_wait_net net =
     (let wait_transition = Transition WAIT_TRANSITION WAIT_TRANSITION;
          r = add_wait_loop (places net) ([], arcs net, wait_transition)
      in (\<lparr>places = fst r, transitions = transitions net @ [snd (snd r)],
           arcs = fst (snd r)\<rparr>,
          snd (snd r)))"

text \<open>A net with the places \<open>source\<close> and \<open>sink\<close> and one transition \<open>a\<close> between them.\<close>

definition example_net :: PetriNet where
  "example_net =
     \<lparr>places = [\<lparr>name = ''source'', label = None, in_arcs = [],
                   out_arcs = [(PlaceRef ''source'', TransitionRef ''a'')]\<rparr>,
                 \<lparr>name = ''sink'', label = None,
                   in_arcs = [(TransitionRef ''a'', PlaceRef ''sink'')], out_arcs = []\<rparr>],
      transitions = [\<lparr>name = ''a'', label = Some ''a'',
                        in_arcs = [(PlaceRef ''source'', TransitionRef ''a'')],
                        out_arcs = [(TransitionRef ''a'', PlaceRef ''sink'')]\<rparr>],
      arcs = [(PlaceRef ''source'', TransitionRef ''a''), (TransitionRef ''a'', PlaceRef ''sink'')]\<rparr>"

subsection \<open>The weighted clauses\<close>

definition BOOLEAN_VAR_EDIT_DISTANCE :: string where
  "BOOLEAN_VAR_EDIT_DISTANCE = ''djiid''"

definition WEIGHT_ON_CLAUSES_TO_REDUCE :: int where
  "WEIGHT_ON_CLAUSES_TO_REDUCE = -10"

definition HAMMING_DISTANCE :: string where
  "HAMMING_DISTANCE = ''hamming''"

definition EDIT_DISTANCE :: string where
  "EDIT_DISTANCE = ''edit''"

definition MULTI_ALIGNMENT :: string where
  "MULTI_ALIGNMENT = ''multi''"

definition ANTI_ALIGNMENT :: string where
  "ANTI_ALIGNMENT = ''anti''"

definition EXACT_ALIGNMENT :: string where
  "EXACT_ALIGNMENT = ''exact''"

text \<open>
  \<open>WCNF\<close> is the class of the solver library: \<open>append\<close> with a weight puts the clause among
  the soft clauses and records its weight, \<open>append\<close> without one (and \<open>extend\<close>) puts the
  clause among the hard clauses. Its variable count and top weight are not modelled.
\<close>

record WCNF =
  hard :: "int list list"
  soft :: "int list list"
  wght :: "int list"

definition WCNF_init :: WCNF where
  "WCNF_init = \<lparr>hard = [], soft = [], wght = []\<rparr>"

definition WCNF_append :: "WCNF \<Rightarrow> int list \<Rightarrow> int option \<Rightarrow> WCNF" where
  "WCNF_append w clause weight =
     (case weight of
        None \<Rightarrow> w\<lparr>hard := hard w @ [clause]\<rparr>
      | Some x \<Rightarrow>
          if x \<noteq> 0 then w\<lparr>soft := soft w @ [clause], wght := wght w @ [x]\<rparr>
          else w\<lparr>hard := hard w @ [clause]\<rparr>)"

definition WCNF_extend :: "WCNF \<Rightarrow> int list list \<Rightarrow> WCNF" where
  "WCNF_extend w clauses = fold (\<lambda>clause w'. WCNF_append w' clause None) clauses w"

text \<open>
  The fields of \<open>ConformanceArtefacts\<close>. \<open>net\<close> is the reference \<open>self.__net\<close>: the address of
  a net in the store, or \<open>None\<close> as long as the attribute has not been assigned.
  \<open>getVarNumber\<close> and \<open>iterator\<close> belong to the variables generator, a module of its own:
  they are parameters of \<open>createWncf\<close>. \<open>weightsOnVariables\<close> is the local variable of that
  name in \<open>__createWncf\<close>.
\<close>

record 't ConformanceArtefacts =
  size_of_run :: int
  max_d :: int
  distance_type :: string
  traces :: "'t list"
  net :: "nat option"

definition weightsOnVariables :: "string \<Rightarrow> int" where
  "weightsOnVariables artefactForMinimization =
     (if artefactForMinimization \<noteq> ANTI_ALIGNMENT then -1 else 1)"

definition createWncf ::
  "'t ConformanceArtefacts \<Rightarrow> (string \<Rightarrow> int list \<Rightarrow> int) \<Rightarrow> int
     \<Rightarrow> formula list \<Rightarrow> formula list \<Rightarrow> string \<Rightarrow> WCNF" where
  "createWncf self getVarNumber iterator initialisationFormulas distanceFormula
      artefactForMinimization =
     (let formulas = initialisationFormulas @ distanceFormula;
          full_formula = And [] [] formulas;
          cnf = fst (operatorToCnf full_formula iterator);
          wcnf = WCNF_extend WCNF_init cnf
      in if distance_type self = EDIT_DISTANCE then
           fold (\<lambda>j w.
               fold (\<lambda>d w'.
                   WCNF_append w'
                     [weightsOnVariables artefactForMinimization
                        * getVarNumber BOOLEAN_VAR_EDIT_DISTANCE
                            [int j, size_of_run self, size_of_run self, d]]
                     (Some WEIGHT_ON_CLAUSES_TO_REDUCE))
                 [1..max_d self] w)
             [0..<length (traces self)] wcnf
         else if distance_type self = HAMMING_DISTANCE then
           fold (\<lambda>j w.
               fold (\<lambda>i w'.
                   WCNF_append w'
                     [weightsOnVariables artefactForMinimization
                        * getVarNumber BOOLEAN_VAR_EDIT_DISTANCE [int j, i]]
                     (Some WEIGHT_ON_CLAUSES_TO_REDUCE))
                 [1..size_of_run self] w)
             [0..<length (traces self)] wcnf
         else wcnf)"

subsection \<open>The three artefacts\<close>

text \<open>
  The caller's nets live in a store, from addresses to nets; \<open>multiAlignment\<close>,
  \<open>antiAlignment\<close> and \<open>exactAlignment\<close> take the address of the net given by the caller. Of
  their bodies the statements that touch the net are modelled: the assignment of
  \<open>self.__net\<close>, and \<open>__artefactsInitialisation\<close> up to its call of \<open>__add_wait_net\<close>, which
  reads \<open>self.__net\<close> and raises \<open>AttributeError\<close> when it was never assigned. The
  translation to formulas, which reads the net, and the call of the solver come after;
  they are taken to leave the net as it is.
\<close>

definition artefactsInitialisation ::
  "'t ConformanceArtefacts \<Rightarrow> (nat \<Rightarrow> PetriNet) \<Rightarrow> error + (nat \<Rightarrow> PetriNet) \<times> element" where
  "artefactsInitialisation self store =
     (case net self of
        None \<Rightarrow> Inl AttributeError
      | Some a \<Rightarrow> Inr (store(a := fst (add_wait_net (store a))), snd (add_wait_net (store a))))"

definition multiAlignment ::
  "'t ConformanceArtefacts \<Rightarrow> nat \<Rightarrow> (nat \<Rightarrow> PetriNet)
     \<Rightarrow> error + 't ConformanceArtefacts \<times> (nat \<Rightarrow> PetriNet)" where
  "multiAlignment self net_arg store =
     (let self' = self\<lparr>net := Some net_arg\<rparr>
      in case artefactsInitialisation self' store of
           Inl e \<Rightarrow> Inl e
         | Inr r \<Rightarrow> Inr (self', fst r))"

definition antiAlignment ::
  "'t ConformanceArtefacts \<Rightarrow> nat \<Rightarrow> (nat \<Rightarrow> PetriNet)
     \<Rightarrow> error + 't ConformanceArtefacts \<times> (nat \<Rightarrow> PetriNet)" where
  "antiAlignment self net_arg store =
     (let self' = self\<lparr>net := Some net_arg\<rparr>
      in case artefactsInitialisation self' store of
           Inl e \<Rightarrow> Inl e
         | Inr r \<Rightarrow> Inr (self', fst r))"

definition exactAlignment ::
  "'t ConformanceArtefacts \<Rightarrow> nat \<Rightarrow> (nat \<Rightarrow> PetriNet)
     \<Rightarrow> error + 't ConformanceArtefacts \<times> (nat \<Rightarrow> PetriNet)" where
  "exactAlignment self net_arg store =
     (case artefactsInitialisation self store of
        Inl e \<Rightarrow> Inl e
      | Inr r \<Rightarrow> Inr (self, fst r))"

section \<open>Properties\<close>

subsection \<open>Properties of the compilation\<close>

declare aux_operatorToCnf.simps(2) [simp del]

lemma unwrap_iff:
  "(length fs = 1 \<and> type (fs ! 0) = ''OR''
         \<and> length (getpositiveVariables (fs ! 0)) = 0
         \<and> length (getnegativeVariables (fs ! 0)) = 0) = (\<exists>G. fs = [Or [] [] G])"
proof (cases fs)
  case Nil
  then show ?thesis by simp
next
  case (Cons f gs)
  then show ?thesis
    by (cases f) (auto simp: getpositiveVariables_def getnegativeVariables_def)
qed

lemma aux_Or_unwrap:
  "aux_operatorToCnf (Or p n [Or [] [] G]) s = aux_operatorToCnf (Or p n G) s"
  by (subst aux_operatorToCnf.simps(2))
     (simp add: getpositiveVariables_def getnegativeVariables_def)

lemma aux_Or_general:
  assumes "\<not> (\<exists>G. fs = [Or [] [] G])"
  shows "aux_operatorToCnf (Or p n fs) s =
    (if fs = [] then ([p @ map (\<lambda>v. v * -1) n], s)
     else (fst (aux_list (map (\<lambda>i. distribute (fs ! i) (s + int i)) [0..<length fs])
                  (s + int (length fs)))
             @ [p @ map (\<lambda>i. s + int i) [0..<length fs] @ map (\<lambda>v. v * -1) n],
           snd (aux_list (map (\<lambda>i. distribute (fs ! i) (s + int i)) [0..<length fs])
                  (s + int (length fs)))))"
proof -
  have c: "\<not> (length fs = 1 \<and> type (fs ! 0) = ''OR''
         \<and> length (getpositiveVariables (fs ! 0)) = 0
         \<and> length (getnegativeVariables (fs ! 0)) = 0)"
    using assms unfolding unwrap_iff .
  show ?thesis
    by (subst aux_operatorToCnf.simps(2), subst if_not_P [OF c]) (simp add: Let_def)
qed


lemma distribute_all_Nil [simp]: "distribute_all [] s = []"
  by (simp add: distribute_all_def)

lemma distribute_all_Cons [simp]:
  "distribute_all (f # fs) s = distribute f s # distribute_all fs (s + 1)"
proof -
  have "[0..<length (f # fs)] = 0 # map Suc [0..<length fs]"
    by (simp add: upt_conv_Cons map_Suc_upt del: upt_Suc)
  then show ?thesis
    by (simp add: distribute_all_def o_def add.assoc del: upt_Suc)
qed

lemma length_distribute_all [simp]: "length (distribute_all fs s) = length fs"
  by (simp add: distribute_all_def)


lemma aux_And_nil: "aux_operatorToCnf (And [] [] fs) s = aux_list fs s"
  by (simp add: Let_def)

lemma aux_Or_leaf: "aux_operatorToCnf (Or p n []) s = ([p @ map (\<lambda>v. v * -1) n], s)"
  by (simp add: aux_Or_general)

lemma aux_Or_split:
  assumes "\<not> (\<exists>G. fs = [Or [] [] G])" "fs \<noteq> []"
  shows "aux_operatorToCnf (Or p n fs) s =
     (fst (aux_list (distribute_all fs s) (s + int (length fs)))
        @ [p @ map (\<lambda>i. s + int i) [0..<length fs] @ map (\<lambda>v. v * -1) n],
      snd (aux_list (distribute_all fs s) (s + int (length fs))))"
  using assms by (simp add: aux_Or_general distribute_all_def)

lemma compile_induct:
  assumes A: "\<And>p n fs s. Q fs s \<Longrightarrow> P (And p n fs) s"
    and U: "\<And>p n G s. P (Or p n G) s \<Longrightarrow> P (Or p n [Or [] [] G]) s"
    and L: "\<And>p n s. P (Or p n []) s"
    and G: "\<And>p n fs s. \<not> (\<exists>G. fs = [Or [] [] G]) \<Longrightarrow> fs \<noteq> [] \<Longrightarrow>
              P (And [] [] (distribute_all fs s)) (s + int (length fs)) \<Longrightarrow> P (Or p n fs) s"
    and N: "\<And>s. Q [] s"
    and C: "\<And>f fs s. P f s \<Longrightarrow> Q fs (snd (aux_operatorToCnf f s)) \<Longrightarrow> Q (f # fs) s"
  shows "P f s" and "Q fs s"
proof (induction f s and fs s rule: aux_operatorToCnf_aux_list.induct)
  case (1 p n fs NB_VARS)
  then show ?case by (intro A) simp
next
  case (2 p n fs NB_VARS)
  show ?case
  proof (cases "\<exists>G. fs = [Or [] [] G]")
    case True
    then obtain G where g: "fs = [Or [] [] G]" by blast
    have "P (Or p n (qbf_formulas (fs ! 0))) NB_VARS"
      by (rule 2(1)) (simp add: g getpositiveVariables_def getnegativeVariables_def)
    then show ?thesis using g U by simp
  next
    case False
    show ?thesis
    proof (cases "fs = []")
      case True
      then show ?thesis using L by simp
    next
      case ne: False
      have c: "\<not> (length fs = 1 \<and> type (fs ! 0) = ''OR''
         \<and> length (getpositiveVariables (fs ! 0)) = 0
         \<and> length (getnegativeVariables (fs ! 0)) = 0)"
        using False unfolding unwrap_iff .
      have "P (And [] [] (distribute_all fs NB_VARS)) (NB_VARS + int (length fs))"
        unfolding distribute_all_def
        by (rule 2(2) [OF c refl refl refl refl]) (use ne in simp)
      then show ?thesis using G False ne by blast
    qed
  qed
next
  case (3 NB_VARS)
  then show ?case by (rule N)
next
  case (4 formula fs NB_VARS)
  then show ?case by (intro C) simp_all
qed

lemma variables_list_simps [simp]:
  "variables_list [] = {}"
  "variables_list (f # fs) = variables f \<union> variables_list fs"
  by (simp_all add: variables_list_def)

lemma variables_And [simp]: "variables (And p n fs) = set p \<union> set n \<union> variables_list fs"
  by (simp add: variables_list_def)

lemma variables_Or [simp]: "variables (Or p n fs) = set p \<union> set n \<union> variables_list fs"
  by (simp add: variables_list_def)

declare variables.simps [simp del]

lemma variables_list_append [simp]:
  "variables_list (fs @ gs) = variables_list fs \<union> variables_list gs"
  by (induction fs) auto

lemma magnitudes_simps [simp]:
  "magnitudes [] = {}"
  "magnitudes (c # cs) = abs ` set c \<union> magnitudes cs"
  "magnitudes (cs @ ds) = magnitudes cs \<union> magnitudes ds"
  by (auto simp: magnitudes_def)

lemma variables_distribute: "variables (distribute f v) \<subseteq> variables f \<union> {v}"
proof (cases f)
  case (And p n fs)
  have "variables_list (map (\<lambda>x. Or [x] [v] []) p) \<subseteq> set p \<union> {v}"
    by (induction p) auto
  moreover have "variables_list (map (\<lambda>x. Or [] [x, v] []) n) \<subseteq> set n \<union> {v}"
    by (induction n) auto
  moreover have "variables_list (map (\<lambda>g. Or [] [v] [g]) fs) \<subseteq> variables_list fs \<union> {v}"
    by (induction fs) auto
  ultimately show ?thesis using And by auto
next
  case (Or p n fs)
  then show ?thesis by auto
qed

lemma variables_distribute_all:
  "variables_list (distribute_all fs s) \<subseteq> variables_list fs \<union> {s ..< s + int (length fs)}"
proof (induction fs arbitrary: s)
  case Nil
  show ?case by simp
next
  case (Cons f fs)
  have "variables (distribute f s) \<subseteq> variables f \<union> {s}"
    by (rule variables_distribute)
  moreover have "variables_list (distribute_all fs (s + 1))
      \<subseteq> variables_list fs \<union> {s + 1 ..< s + 1 + int (length fs)}"
    by (rule Cons.IH)
  ultimately show ?case by auto
qed

lemma counter_mono:
  "s \<le> snd (aux_operatorToCnf f s)"
  and counter_mono_list: "s \<le> snd (aux_list fs s)"
proof (induction f s and fs s rule: compile_induct)
  case (1 p n fs s)
  then show ?case by (simp add: Let_def)
next
  case (2 p n G s)
  then show ?case by (simp add: aux_Or_unwrap)
next
  case (3 p n s)
  show ?case by (simp add: aux_Or_leaf)
next
  case (4 p n fs s)
  then show ?case by (simp add: aux_Or_split aux_And_nil)
next
  case (5 s)
  show ?case by simp
next
  case (6 f fs s)
  then show ?case by (simp add: Let_def)
qed

lemma magnitudes_bound:
  "0 \<le> s \<Longrightarrow> magnitudes (fst (aux_operatorToCnf f s))
      \<subseteq> abs ` variables f \<union> {s ..< snd (aux_operatorToCnf f s)}"
  and magnitudes_bound_list: "0 \<le> s \<Longrightarrow> magnitudes (fst (aux_list fs s))
      \<subseteq> abs ` variables_list fs \<union> {s ..< snd (aux_list fs s)}"
proof (induction f s and fs s rule: compile_induct)
  case (1 p n fs s)
  have "magnitudes (map (\<lambda>v. [v]) p) \<subseteq> abs ` set p"
    by (induction p) auto
  moreover have "magnitudes (map (\<lambda>v. [v * -1]) n) \<subseteq> abs ` set n"
    by (induction n) auto
  ultimately show ?case using 1 by (auto simp: Let_def)
next
  case (2 p n G s)
  then show ?case by (simp add: aux_Or_unwrap)
next
  case (3 p n s)
  show ?case by (auto simp: aux_Or_leaf)
next
  case (4 p n fs s)
  let ?k = "int (length fs)"
  let ?r = "aux_list (distribute_all fs s) (s + ?k)"
  have ih: "magnitudes (fst ?r) \<subseteq> abs ` variables_list (distribute_all fs s) \<union> {s + ?k ..< snd ?r}"
    using 4 by (simp add: aux_And_nil)
  have m: "s + ?k \<le> snd ?r" by (rule counter_mono_list)
  have v: "abs ` variables_list (distribute_all fs s) \<subseteq> abs ` variables_list fs \<union> {s ..< s + ?k}"
    using variables_distribute_all [of fs s] \<open>0 \<le> s\<close> by fastforce
  have d: "abs ` set (map (\<lambda>i. s + int i) [0..<length fs]) \<subseteq> {s ..< s + ?k}"
  proof
    fix m assume "m \<in> abs ` set (map (\<lambda>i. s + int i) [0..<length fs])"
    then obtain i where "i < length fs" "m = \<bar>s + int i\<bar>" by auto
    then show "m \<in> {s ..< s + ?k}" using \<open>0 \<le> s\<close> by simp
  qed
  have dn: "abs ` set (map (\<lambda>v. v * -1) n) = abs ` set n"
    by (simp add: image_image)
  have "magnitudes (fst ?r) \<subseteq> abs ` variables_list fs \<union> {s ..< snd ?r}"
    using ih v m by fastforce
  moreover have "abs ` set (p @ map (\<lambda>i. s + int i) [0..<length fs] @ map (\<lambda>v. v * -1) n)
     \<subseteq> abs ` (set p \<union> set n) \<union> {s ..< snd ?r}"
  proof -
    have "abs ` set (p @ map (\<lambda>i. s + int i) [0..<length fs] @ map (\<lambda>v. v * -1) n)
       = abs ` set p \<union> abs ` set (map (\<lambda>i. s + int i) [0..<length fs]) \<union> abs ` set n"
      using dn by (simp only: set_append image_Un Un_assoc)
    moreover have "{s ..< s + ?k} \<subseteq> {s ..< snd ?r}" using m by auto
    ultimately show ?thesis using d by (simp only: image_Un) blast
  qed
  ultimately show ?case
    using 4(1,2) by (simp add: aux_Or_split image_Un del: set_append map_append) blast
next
  case (5 s)
  show ?case by simp
next
  case (6 f fs s)
  let ?s1 = "snd (aux_operatorToCnf f s)"
  have m1: "s \<le> ?s1" by (rule counter_mono)
  have m2: "?s1 \<le> snd (aux_list fs ?s1)" by (rule counter_mono_list)
  have a: "magnitudes (fst (aux_operatorToCnf f s)) \<subseteq> abs ` variables f \<union> {s ..< ?s1}"
    using 6 by simp
  have b: "magnitudes (fst (aux_list fs ?s1)) \<subseteq> abs ` variables_list fs \<union> {?s1 ..< snd (aux_list fs ?s1)}"
    using 6 m1 by simp
  show ?case using a b m1 m2 by (fastforce simp: Let_def image_Un)
qed

lemma cnf_true_simps [simp]:
  "cnf_true A [] = True"
  "cnf_true A (c # cs) = (clause_true A c \<and> cnf_true A cs)"
  "cnf_true A (cs @ ds) = (cnf_true A cs \<and> cnf_true A ds)"
  by (simp_all add: cnf_true_def)













subsection \<open>Properties of the simplification\<close>

lemma flatten_and:
  "(list_all A (fst (snd (flatten ''AND'' fs acc)))
     \<and> list_all (\<lambda>v. \<not> A v) (fst (flatten ''AND'' fs acc))
     \<and> list_all (eval A) (snd (snd (flatten ''AND'' fs acc))))
   = (list_all A (fst (snd acc)) \<and> list_all (\<lambda>v. \<not> A v) (fst acc)
     \<and> list_all (eval A) (snd (snd acc)) \<and> list_all (eval A) fs)"
proof (induction fs arbitrary: acc)
  case Nil
  show ?case by simp
next
  case (Cons qbf rest)
  obtain ng ps nw where acc: "acc = (ng, ps, nw)" by (cases acc)
  show ?case
  proof (cases qbf)
    case (And p n gs)
    show ?thesis
      unfolding acc And
      using Cons.IH [of "(ng @ n, ps @ p, nw @ gs)"] by auto
  next
    case (Or p n gs)
    show ?thesis
      unfolding acc Or
      using Cons.IH [of "(ng, ps, nw @ [Or p n gs])"] by auto
  qed
qed

lemma flatten_or:
  "(list_ex A (fst (snd (flatten ''OR'' fs acc)))
     \<or> list_ex (\<lambda>v. \<not> A v) (fst (flatten ''OR'' fs acc))
     \<or> list_ex (eval A) (snd (snd (flatten ''OR'' fs acc))))
   = (list_ex A (fst (snd acc)) \<or> list_ex (\<lambda>v. \<not> A v) (fst acc)
     \<or> list_ex (eval A) (snd (snd acc)) \<or> list_ex (eval A) fs)"
proof (induction fs arbitrary: acc)
  case Nil
  show ?case by simp
next
  case (Cons qbf rest)
  obtain ng ps nw where acc: "acc = (ng, ps, nw)" by (cases acc)
  show ?case
  proof (cases qbf)
    case (And p n gs)
    show ?thesis
      unfolding acc And
      using Cons.IH [of "(ng, ps, nw @ [And p n gs])"] by auto
  next
    case (Or p n gs)
    show ?thesis
      unfolding acc Or
      using Cons.IH [of "(ng @ n, ps @ p, nw @ gs)"] by auto
  qed
qed

lemma simplify_eval: "eval A (simplify F) = eval A F"
proof (induction F rule: simplify.induct)
  case (1 self)
  show ?case
  proof (cases "length (qbf_formulas self) = 0")
    case True
    then show ?thesis by (simp add: simplify.simps)
  next
    case ne: False
    show ?thesis
    proof (cases "length (qbf_formulas self) = 1 \<and> length (positiveVariables self) = 0
              \<and> length (negativeVariables self) = 0")
      case True
      then obtain c where c: "qbf_formulas self = [c]"
        by (cases "qbf_formulas self") auto
      have "simplify self = simplify c"
        using True c by (subst simplify.simps) simp
      moreover have "eval A (simplify c) = eval A c"
        using "1.IH"(1) [OF ne True] c by simp
      moreover have "eval A self = eval A c"
        using True c by (cases self) simp_all
      ultimately show ?thesis by simp
    next
      case False
      define r where "r = flatten (type self) (qbf_formulas self)
                  (negativeVariables self, positiveVariables self, [])"
      have ih: "eval A (simplify x) = eval A x" if "x \<in> set (snd (snd r))" for x
        using "1.IH"(2) [OF ne False r_def that] .
      have sall: "list_all (eval A) (map simplify (snd (snd r))) = list_all (eval A) (snd (snd r))"
        using ih by (simp add: list_all_iff)
      have sex: "list_ex (eval A) (map simplify (snd (snd r))) = list_ex (eval A) (snd (snd r))"
        using ih by (simp add: list_ex_iff)
      have eq: "simplify self = (if type self = ''AND''
           then And (fst (snd r)) (fst r) (map simplify (snd (snd r)))
           else Or (fst (snd r)) (fst r) (map simplify (snd (snd r))))"
        by (subst simplify.simps, subst if_not_P [OF ne], subst if_not_P [OF False])
           (simp add: r_def Let_def)
      show ?thesis
      proof (cases self)
        case (And p n fs)
        have "eval A (simplify self)
            = (list_all A (fst (snd r)) \<and> list_all (\<lambda>v. \<not> A v) (fst r)
               \<and> list_all (eval A) (snd (snd r)))"
          using eq And sall by simp
        also have "\<dots> = eval A self"
          using flatten_and [of A fs "(n, p, [])"] And by (simp add: r_def)
        finally show ?thesis .
      next
        case (Or p n fs)
        have "eval A (simplify self)
            = (list_ex A (fst (snd r)) \<or> list_ex (\<lambda>v. \<not> A v) (fst r)
               \<or> list_ex (eval A) (snd (snd r)))"
          using eq Or sex by simp
        also have "\<dots> = eval A self"
          using flatten_or [of A fs "(n, p, [])"] Or by (simp add: r_def)
        finally show ?thesis .
      qed
    qed
  qed
qed

lemma flatten_closed:
  "flatten t fs (ng, ps, nw) =
     (ng @ concat (map negativeVariables (filter (\<lambda>q. type q = t) fs)),
      ps @ concat (map positiveVariables (filter (\<lambda>q. type q = t) fs)),
      nw @ concat (map (\<lambda>q. if type q = t then qbf_formulas q else [q]) fs))"
  by (induction fs arbitrary: ng ps nw) simp_all

lemma simplify_collapse:
  "simplify (And [] [] [c]) = simplify c" "simplify (Or [] [] [c]) = simplify c"
  by (subst simplify.simps, simp)+

lemma simplify_flatten_And:
  "simplify (And p n (f # g # fs)) =
     And (p @ concat (map positiveVariables (filter (\<lambda>q. type q = ''AND'') (f # g # fs))))
         (n @ concat (map negativeVariables (filter (\<lambda>q. type q = ''AND'') (f # g # fs))))
         (map simplify
            (concat (map (\<lambda>q. if type q = ''AND'' then qbf_formulas q else [q]) (f # g # fs))))"
  by (subst simplify.simps) (simp add: flatten_closed Let_def del: flatten.simps)

lemma simplify_flatten_Or:
  "simplify (Or p n (f # g # fs)) =
     Or (p @ concat (map positiveVariables (filter (\<lambda>q. type q = ''OR'') (f # g # fs))))
        (n @ concat (map negativeVariables (filter (\<lambda>q. type q = ''OR'') (f # g # fs))))
        (map simplify
           (concat (map (\<lambda>q. if type q = ''OR'' then qbf_formulas q else [q]) (f # g # fs))))"
  by (subst simplify.simps) (simp add: flatten_closed Let_def del: flatten.simps)

subsection \<open>Properties of the weighted clauses\<close>

lemma extend_hard: "WCNF_extend w cs = w\<lparr>hard := hard w @ cs\<rparr>"
  unfolding WCNF_extend_def
  by (induction cs arbitrary: w) (simp_all add: WCNF_append_def)

lemma inner_loop:
  "x \<noteq> 0 \<Longrightarrow>
   fold (\<lambda>d w'. WCNF_append w' [g d] (Some x)) ds w
     = w\<lparr>soft := soft w @ map (\<lambda>d. [g d]) ds, wght := wght w @ replicate (length ds) x\<rparr>"
  by (induction ds arbitrary: w) (simp_all add: WCNF_append_def replicate_append_same)

lemma outer_step:
  "fold (\<lambda>j a. a\<lparr>soft := soft a @ h j, wght := wght a @ replicate m x\<rparr>) js (w0::WCNF)
     = w0\<lparr>soft := soft w0 @ concat (map h js),
          wght := wght w0 @ replicate (length js * m) x\<rparr>"
  by (induction js arbitrary: w0) (simp_all add: replicate_add)

lemma outer_loop:
  assumes "x \<noteq> 0"
  shows "fold (\<lambda>j w. fold (\<lambda>d w'. WCNF_append w' [g j d] (Some x)) ds w) js w0
     = w0\<lparr>soft := soft w0 @ concat (map (\<lambda>j. map (\<lambda>d. [g j d]) ds) js),
          wght := wght w0 @ replicate (length js * length ds) x\<rparr>"
proof -
  have "(\<lambda>j w. fold (\<lambda>d w'. WCNF_append w' [g j d] (Some x)) ds w)
      = (\<lambda>j a. a\<lparr>soft := soft a @ map (\<lambda>d. [g j d]) ds,
                    wght := wght a @ replicate (length ds) x\<rparr>)"
    by (intro ext) (rule inner_loop [OF assms])
  then show ?thesis by (simp only: outer_step)
qed

lemma nth_concat_uniform:
  assumes "j < length js" "i < n" "\<And>j. length (f j) = n"
  shows "concat (map f js) ! (j * n + i) = f (js ! j) ! i"
  using assms(1)
proof (induction js arbitrary: j)
  case Nil
  then show ?case by simp
next
  case (Cons a js)
  show ?case
  proof (cases j)
    case 0
    then show ?thesis using assms(2,3) by (simp add: nth_append)
  next
    case (Suc k)
    then have "k < length js" using Cons.prems by simp
    then have "concat (map f js) ! (k * n + i) = f (js ! k) ! i" by (rule Cons.IH)
    then show ?thesis using Suc assms(3) by (simp add: nth_append)
  qed
qed

lemma length_concat_uniform:
  "(\<And>j. length (f j) = n) \<Longrightarrow> length (concat (map f js)) = length js * n"
  by (induction js) simp_all

lemma createWncf_edit:
  assumes "distance_type self = EDIT_DISTANCE"
  shows "createWncf self getVarNumber iterator init dist artefact =
     \<lparr>hard = fst (operatorToCnf (And [] [] (init @ dist)) iterator),
      soft = concat (map (\<lambda>j. map (\<lambda>d.
               [weightsOnVariables artefact * getVarNumber BOOLEAN_VAR_EDIT_DISTANCE
                  [int j, size_of_run self, size_of_run self, d]]) [1..max_d self])
               [0..<length (traces self)]),
      wght = replicate (length (traces self) * nat (max_d self)) WEIGHT_ON_CLAUSES_TO_REDUCE\<rparr>"
proof -
  have x: "WEIGHT_ON_CLAUSES_TO_REDUCE \<noteq> 0" by (simp add: WEIGHT_ON_CLAUSES_TO_REDUCE_def)
  show ?thesis
    unfolding createWncf_def Let_def
    by (simp only: assms if_True outer_loop [OF x] extend_hard)
       (simp add: WCNF_init_def)
qed

lemma createWncf_hamming:
  assumes "distance_type self = HAMMING_DISTANCE"
  shows "createWncf self getVarNumber iterator init dist artefact =
     \<lparr>hard = fst (operatorToCnf (And [] [] (init @ dist)) iterator),
      soft = concat (map (\<lambda>j. map (\<lambda>i.
               [weightsOnVariables artefact * getVarNumber BOOLEAN_VAR_EDIT_DISTANCE [int j, i]])
               [1..size_of_run self])
               [0..<length (traces self)]),
      wght = replicate (length (traces self) * nat (size_of_run self)) WEIGHT_ON_CLAUSES_TO_REDUCE\<rparr>"
proof -
  have x: "WEIGHT_ON_CLAUSES_TO_REDUCE \<noteq> 0" by (simp add: WEIGHT_ON_CLAUSES_TO_REDUCE_def)
  have ne: "HAMMING_DISTANCE \<noteq> EDIT_DISTANCE"
    by (simp add: HAMMING_DISTANCE_def EDIT_DISTANCE_def)
  show ?thesis
    unfolding createWncf_def Let_def
    by (simp only: assms ne if_False if_True outer_loop [OF x] extend_hard)
       (simp add: WCNF_init_def)
qed

lemma nth_grid:
  assumes "j < T" "1 \<le> d" "d \<le> m"
  shows "concat (map (\<lambda>j. map (g j) [1..m]) [0..<T]) ! (j * nat m + nat (d - 1)) = g j d"
proof -
  have l: "length (map (g j') [1..m]) = nat m" for j' by simp
  have i: "nat (d - 1) < nat m" using assms(2,3) by simp
  have "concat (map (\<lambda>j. map (g j) [1..m]) [0..<T]) ! (j * nat m + nat (d - 1))
      = map (g ([0..<T] ! j)) [1..m] ! nat (d - 1)"
    using assms(1) i l by (intro nth_concat_uniform) simp_all
  also have "\<dots> = g j ([1..m] ! nat (d - 1))"
    using assms i by simp
  also have "[1..m] ! nat (d - 1) = d"
    using assms(2,3) by (simp add: nth_upto)
  finally show ?thesis .
qed

lemma length_grid: "length (concat (map (\<lambda>j. map (g j) [1..m]) [0..<T])) = T * nat m"
proof -
  have "length (concat (map (\<lambda>j. map (g j) [1..m]) [0..<T])) = length [0..<T] * nat m"
    by (rule length_concat_uniform) simp
  then show ?thesis by simp
qed

subsection \<open>Properties of the wait transition\<close>

lemma ex1: "fst (add_wait_net example_net) =
   \<lparr>places = [\<lparr>name = ''source'', label = None, in_arcs = [],
                   out_arcs = [(PlaceRef ''source'', TransitionRef ''a'')]\<rparr>,
                 \<lparr>name = ''sink'', label = None,
                   in_arcs = [(TransitionRef ''a'', PlaceRef ''sink''),
                              (TransitionRef ''w'', PlaceRef ''sink'')],
                   out_arcs = [(PlaceRef ''sink'', TransitionRef ''w'')]\<rparr>],
      transitions = [\<lparr>name = ''a'', label = Some ''a'',
                        in_arcs = [(PlaceRef ''source'', TransitionRef ''a'')],
                        out_arcs = [(TransitionRef ''a'', PlaceRef ''sink'')]\<rparr>,
                     \<lparr>name = ''w'', label = Some ''w'',
                        in_arcs = [(PlaceRef ''sink'', TransitionRef ''w'')],
                        out_arcs = [(TransitionRef ''w'', PlaceRef ''sink'')]\<rparr>],
      arcs = [(PlaceRef ''source'', TransitionRef ''a''), (TransitionRef ''a'', PlaceRef ''sink''),
              (PlaceRef ''sink'', TransitionRef ''w''), (TransitionRef ''w'', PlaceRef ''sink'')]\<rparr>"
  by (simp add: add_wait_net_def example_net_def Transition_def WAIT_TRANSITION_def Let_def)

lemma add_wait_loop_wait:
  "name (snd (snd (add_wait_loop ps (seen, net_arcs, w)))) = name w
   \<and> label (snd (snd (add_wait_loop ps (seen, net_arcs, w)))) = label w"
  by (induction ps arbitrary: seen net_arcs w) (simp_all add: Let_def)

lemma add_wait_net_transitions:
  "transitions (fst (add_wait_net N)) = transitions N @ [snd (add_wait_net N)]
   \<and> name (snd (add_wait_net N)) = WAIT_TRANSITION
   \<and> label (snd (add_wait_net N)) = Some WAIT_TRANSITION"
  by (simp add: add_wait_net_def Let_def add_wait_loop_wait Transition_def)

section \<open>Claims\<close>



text \<open>
  C2. As stated the claim fails: with literal magnitudes in \<open>[1, n]\<close> the first auxiliary
  variable is \<open>n\<close> itself, a magnitude of \<open>[1, n]\<close> that need not occur in the node. The
  formula \<open>Or [1] [] [And [1] [] []]\<close> compiled with \<open>n = 2\<close> gives \<open>[[1, -2], [1, 2]]\<close>.
\<close>

theorem C2_counterexample:
  "variables (Or [1] [] [And [1] [] []]) = {1}
   \<and> fst (operatorToCnf (Or [1] [] [And [1] [] []]) 2) = [[1, -2], [1, 2]]
   \<and> \<not> (\<forall>m\<in>magnitudes (fst (operatorToCnf (Or [1] [] [And [1] [] []]) 2)).
          1 \<le> m \<and> m \<le> 2 \<longrightarrow> m \<in> abs ` variables (Or [1] [] [And [1] [] []]))"
proof -
  have c: "operatorToCnf (Or [1] [] [And [1] [] []]) 2 = ([[1, -2], [1, 2]], 3)"
    by (simp add: operatorToCnf_def aux_operatorToCnf.simps(2)
        getpositiveVariables_def getnegativeVariables_def)
  have v: "variables (Or [1] [] [And [1] [] []]) = {1}" by simp
  have m: "magnitudes [[1, -2], [1, 2]] = {1, 2}" by auto
  show ?thesis unfolding c v m fst_conv by simp
qed

text \<open>
  C2, amended. For every formula and every variable count \<open>n \<ge> 0\<close>, every magnitude below
  \<open>n\<close> in the clauses of \<open>operatorToCnf F n\<close> already occurred in one of the node's literal
  lists, and every magnitude that did not occur there lies in \<open>[n, n + k)\<close>, where \<open>n + k\<close> is
  the final counter, \<open>k\<close> being the number of auxiliary variables allocated.
\<close>

theorem C2_fresh_magnitudes:
  assumes "0 \<le> n"
  shows "n \<le> snd (operatorToCnf F n)
    \<and> (\<forall>m\<in>magnitudes (fst (operatorToCnf F n)).
         (m < n \<longrightarrow> m \<in> abs ` variables F)
         \<and> (m \<notin> abs ` variables F \<longrightarrow> n \<le> m \<and> m < snd (operatorToCnf F n)))"
proof -
  have "magnitudes (fst (aux_operatorToCnf F n))
      \<subseteq> abs ` variables F \<union> {n ..< snd (aux_operatorToCnf F n)}"
    using assms by (rule magnitudes_bound)
  moreover have "n \<le> snd (aux_operatorToCnf F n)" by (rule counter_mono)
  ultimately show ?thesis unfolding operatorToCnf_def by auto
qed

theorem C2_fresh_magnitudes_witness:
  "(0::int) \<le> 2
   \<and> 2 \<in> magnitudes (fst (operatorToCnf (Or [1] [] [And [1] [] []]) 2))
   \<and> 2 \<notin> abs ` variables (Or [1] [] [And [1] [] []])
   \<and> 2 \<le> snd (operatorToCnf (Or [1] [] [And [1] [] []]) 2)
   \<and> 2 < snd (operatorToCnf (Or [1] [] [And [1] [] []]) 2)"
proof -
  let ?F = "Or [1] [] [And [1] [] []]"
  have h: "(0::int) \<le> 2" by simp
  have c: "operatorToCnf ?F 2 = ([[1, -2], [1, 2]], 3)"
    by (simp add: operatorToCnf_def aux_operatorToCnf.simps(2)
        getpositiveVariables_def getnegativeVariables_def)
  have i: "2 \<in> magnitudes (fst (operatorToCnf ?F 2))" unfolding c by simp
  have o: "2 \<notin> abs ` variables ?F" by simp
  note t = C2_fresh_magnitudes [OF h, of ?F]
  from t have le: "2 \<le> snd (operatorToCnf ?F 2)" by (rule conjunct1)
  from t have "\<forall>m\<in>magnitudes (fst (operatorToCnf ?F 2)).
         (m < 2 \<longrightarrow> m \<in> abs ` variables ?F)
         \<and> (m \<notin> abs ` variables ?F \<longrightarrow> 2 \<le> m \<and> m < snd (operatorToCnf ?F 2))"
    by (rule conjunct2)
  from bspec [OF this i]
  have "2 \<notin> abs ` variables ?F \<longrightarrow> 2 \<le> (2::int) \<and> 2 < snd (operatorToCnf ?F 2)"
    by (rule conjunct2)
  from mp [OF this o] have lt: "2 < snd (operatorToCnf ?F 2)" by (rule conjunct2)
  show ?thesis using h i o le lt by (intro conjI)
qed





text \<open>
  C5. Compiling \<open>Or [] [] [And [1] [] [], And [2] [] []]\<close> with the counter at 10 yields the
  clauses \<open>(x1 \<or> \<not>a) \<and> (x2 \<or> \<not>b) \<and> (a \<or> b)\<close> with \<open>a = 10\<close> and \<open>b = 11\<close>, and leaves the
  counter at 12. An assignment satisfies \<open>x1 \<or> x2\<close> exactly when some choice of \<open>a\<close> and \<open>b\<close>
  makes it satisfy the clauses, so the clauses are satisfiable exactly when \<open>x1 \<or> x2\<close> is.
\<close>

theorem C5_or_of_two_ands:
  "operatorToCnf (Or [] [] [And [1] [] [], And [2] [] []]) 10
     = ([[1, -10], [2, -11], [10, 11]], 12)
   \<and> cnf_true A (fst (operatorToCnf (Or [] [] [And [1] [] [], And [2] [] []]) 10))
     = ((A 1 \<or> \<not> A 10) \<and> (A 2 \<or> \<not> A 11) \<and> (A 10 \<or> A 11))
   \<and> eval A (Or [] [] [And [1] [] [], And [2] [] []]) = (A 1 \<or> A 2)
   \<and> eval A (Or [] [] [And [1] [] [], And [2] [] []])
     = (\<exists>a b. cnf_true (A(10 := a, 11 := b))
          (fst (operatorToCnf (Or [] [] [And [1] [] [], And [2] [] []]) 10)))
   \<and> (\<exists>B. cnf_true B (fst (operatorToCnf (Or [] [] [And [1] [] [], And [2] [] []]) 10)))
     = (\<exists>B. eval B (Or [] [] [And [1] [] [], And [2] [] []]))"
proof -
  let ?F = "Or [] [] [And [1] [] [], And [2] [] []]"
  have c: "operatorToCnf ?F 10 = ([[1, -10], [2, -11], [10, 11]], 12)"
    by (simp add: operatorToCnf_def aux_operatorToCnf.simps(2)
        getpositiveVariables_def getnegativeVariables_def)
  have t: "cnf_true B [[1, -10], [2, -11], [10, 11]]
      = ((B 1 \<or> \<not> B 10) \<and> (B 2 \<or> \<not> B 11) \<and> (B 10 \<or> B 11))" for B
    by (simp add: cnf_true_def clause_true_def lit_true_def)
  have e: "eval B ?F = (B 1 \<or> B 2)" for B
    by simp
  have x: "(A 1 \<or> A 2) = (\<exists>a b. cnf_true (A(10 := a, 11 := b)) [[1, -10], [2, -11], [10, 11]])"
    unfolding t by (simp, blast)
  have s1: "\<exists>B. cnf_true B [[1, -10], [2, -11], [10, 11]]"
    unfolding t by (rule exI [of _ "\<lambda>v. True"]) simp
  have s2: "\<exists>B. eval B ?F"
    unfolding e by (rule exI [of _ "\<lambda>v. True"]) simp
  show ?thesis
    unfolding c fst_conv using t e x s1 s2 by simp
qed

text \<open>
  C6. Compiling the node \<open>Or [] [] []\<close>, which has no literal and no sub-formula, yields
  exactly \<open>[[]]\<close>, the single empty clause; the counter is left as it was, so no fresh
  variable is used, and the result is an ordinary clause list.
\<close>

theorem C6_empty_or_single_empty_clause:
  "operatorToCnf (Or [] [] []) n = ([[]], n)"
  by (simp add: operatorToCnf_def aux_Or_general)

text \<open>
  C7. For every formula \<open>F\<close> and every assignment, \<open>simplify F\<close> has the truth value of \<open>F\<close>.
  A node with exactly one sub-formula and no literal is replaced by the simplification of
  that sub-formula; a node with two sub-formulas or more takes over the variables and the
  sub-formulas of its sub-formulas of its own type, and the resulting sub-formulas are
  simplified in turn.
\<close>

theorem C7_simplify_equivalent:
  "eval A (simplify F) = eval A F
   \<and> simplify (And [] [] [c]) = simplify c
   \<and> simplify (Or [] [] [c]) = simplify c
   \<and> simplify (And p n (f # g # fs)) =
       And (p @ concat (map positiveVariables (filter (\<lambda>q. type q = ''AND'') (f # g # fs))))
           (n @ concat (map negativeVariables (filter (\<lambda>q. type q = ''AND'') (f # g # fs))))
           (map simplify
              (concat (map (\<lambda>q. if type q = ''AND'' then qbf_formulas q else [q]) (f # g # fs))))
   \<and> simplify (Or p n (f # g # fs)) =
       Or (p @ concat (map positiveVariables (filter (\<lambda>q. type q = ''OR'') (f # g # fs))))
          (n @ concat (map negativeVariables (filter (\<lambda>q. type q = ''OR'') (f # g # fs))))
          (map simplify
             (concat (map (\<lambda>q. if type q = ''OR'' then qbf_formulas q else [q]) (f # g # fs))))"
  using simplify_eval [of A F] simplify_collapse [of c]
    simplify_flatten_And [of p n f g fs] simplify_flatten_Or [of p n f g fs]
  by (intro conjI)

text \<open>
  C8. In \<open>__createWncf\<close>, for every trace index \<open>j\<close> and every distance index (\<open>d\<close> from 1 to
  \<open>max_d\<close> for the edit distance, \<open>i\<close> from 1 to \<open>size_of_run\<close> for the Hamming distance)
  exactly one soft clause is appended: the soft clauses are as many as the pairs of
  indices, the clause of the pair \<open>(j, d)\<close> stands at position \<open>j * max_d + (d - 1)\<close> and is the
  unit clause of the distance variable times the sign, every weight is the constant
  \<open>WEIGHT_ON_CLAUSES_TO_REDUCE\<close>, which is negative, and the sign is 1 for the anti-alignment
  and -1 for the multi-alignment and the exact alignment.
\<close>

theorem C8_soft_unit_clauses:
  assumes "j < length (traces self)"
  shows "(distance_type self = EDIT_DISTANCE \<longrightarrow>
       length (soft (createWncf self getVarNumber iterator init dist artefact))
          = length (traces self) * nat (max_d self)
     \<and> wght (createWncf self getVarNumber iterator init dist artefact)
          = replicate (length (traces self) * nat (max_d self)) WEIGHT_ON_CLAUSES_TO_REDUCE
     \<and> (\<forall>d. 1 \<le> d \<and> d \<le> max_d self \<longrightarrow>
          soft (createWncf self getVarNumber iterator init dist artefact)
              ! (j * nat (max_d self) + nat (d - 1))
            = [weightsOnVariables artefact * getVarNumber BOOLEAN_VAR_EDIT_DISTANCE
                 [int j, size_of_run self, size_of_run self, d]]))
   \<and> (distance_type self = HAMMING_DISTANCE \<longrightarrow>
       length (soft (createWncf self getVarNumber iterator init dist artefact))
          = length (traces self) * nat (size_of_run self)
     \<and> wght (createWncf self getVarNumber iterator init dist artefact)
          = replicate (length (traces self) * nat (size_of_run self)) WEIGHT_ON_CLAUSES_TO_REDUCE
     \<and> (\<forall>i. 1 \<le> i \<and> i \<le> size_of_run self \<longrightarrow>
          soft (createWncf self getVarNumber iterator init dist artefact)
              ! (j * nat (size_of_run self) + nat (i - 1))
            = [weightsOnVariables artefact * getVarNumber BOOLEAN_VAR_EDIT_DISTANCE [int j, i]]))
   \<and> WEIGHT_ON_CLAUSES_TO_REDUCE < 0
   \<and> weightsOnVariables ANTI_ALIGNMENT = 1
   \<and> weightsOnVariables MULTI_ALIGNMENT = -1
   \<and> weightsOnVariables EXACT_ALIGNMENT = -1"
proof -
  have e: "distance_type self = EDIT_DISTANCE \<longrightarrow>
       length (soft (createWncf self getVarNumber iterator init dist artefact))
          = length (traces self) * nat (max_d self)
     \<and> wght (createWncf self getVarNumber iterator init dist artefact)
          = replicate (length (traces self) * nat (max_d self)) WEIGHT_ON_CLAUSES_TO_REDUCE
     \<and> (\<forall>d. 1 \<le> d \<and> d \<le> max_d self \<longrightarrow>
          soft (createWncf self getVarNumber iterator init dist artefact)
              ! (j * nat (max_d self) + nat (d - 1))
            = [weightsOnVariables artefact * getVarNumber BOOLEAN_VAR_EDIT_DISTANCE
                 [int j, size_of_run self, size_of_run self, d]])"
  proof
    assume a: "distance_type self = EDIT_DISTANCE"
    show "length (soft (createWncf self getVarNumber iterator init dist artefact))
          = length (traces self) * nat (max_d self)
     \<and> wght (createWncf self getVarNumber iterator init dist artefact)
          = replicate (length (traces self) * nat (max_d self)) WEIGHT_ON_CLAUSES_TO_REDUCE
     \<and> (\<forall>d. 1 \<le> d \<and> d \<le> max_d self \<longrightarrow>
          soft (createWncf self getVarNumber iterator init dist artefact)
              ! (j * nat (max_d self) + nat (d - 1))
            = [weightsOnVariables artefact * getVarNumber BOOLEAN_VAR_EDIT_DISTANCE
                 [int j, size_of_run self, size_of_run self, d]])"
      unfolding createWncf_edit [OF a]
      using assms by (simp add: length_grid nth_grid)
  qed
  have h: "distance_type self = HAMMING_DISTANCE \<longrightarrow>
       length (soft (createWncf self getVarNumber iterator init dist artefact))
          = length (traces self) * nat (size_of_run self)
     \<and> wght (createWncf self getVarNumber iterator init dist artefact)
          = replicate (length (traces self) * nat (size_of_run self)) WEIGHT_ON_CLAUSES_TO_REDUCE
     \<and> (\<forall>i. 1 \<le> i \<and> i \<le> size_of_run self \<longrightarrow>
          soft (createWncf self getVarNumber iterator init dist artefact)
              ! (j * nat (size_of_run self) + nat (i - 1))
            = [weightsOnVariables artefact * getVarNumber BOOLEAN_VAR_EDIT_DISTANCE [int j, i]])"
  proof
    assume a: "distance_type self = HAMMING_DISTANCE"
    show "length (soft (createWncf self getVarNumber iterator init dist artefact))
          = length (traces self) * nat (size_of_run self)
     \<and> wght (createWncf self getVarNumber iterator init dist artefact)
          = replicate (length (traces self) * nat (size_of_run self)) WEIGHT_ON_CLAUSES_TO_REDUCE
     \<and> (\<forall>i. 1 \<le> i \<and> i \<le> size_of_run self \<longrightarrow>
          soft (createWncf self getVarNumber iterator init dist artefact)
              ! (j * nat (size_of_run self) + nat (i - 1))
            = [weightsOnVariables artefact * getVarNumber BOOLEAN_VAR_EDIT_DISTANCE [int j, i]])"
      unfolding createWncf_hamming [OF a]
      using assms by (simp add: length_grid nth_grid)
  qed
  have w: "WEIGHT_ON_CLAUSES_TO_REDUCE < 0" by (simp add: WEIGHT_ON_CLAUSES_TO_REDUCE_def)
  have s: "weightsOnVariables ANTI_ALIGNMENT = 1" "weightsOnVariables MULTI_ALIGNMENT = -1"
    "weightsOnVariables EXACT_ALIGNMENT = -1"
    by (simp_all add: weightsOnVariables_def ANTI_ALIGNMENT_def MULTI_ALIGNMENT_def
        EXACT_ALIGNMENT_def)
  show ?thesis using e h w s by (intro conjI)
qed

theorem C8_soft_unit_clauses_witness:
  "(1::nat) < length (traces \<lparr>size_of_run = 2, max_d = 2, distance_type = ''edit'',
        traces = [(), ()], net = None\<rparr>)
   \<and> distance_type \<lparr>size_of_run = 2, max_d = 2, distance_type = ''edit'',
        traces = [(), ()], net = None\<rparr> = EDIT_DISTANCE
   \<and> soft (createWncf \<lparr>size_of_run = 2, max_d = 2, distance_type = ''edit'',
        traces = [(), ()], net = None\<rparr> (\<lambda>nm xs. 100 + sum_list xs) 5 [] [] ANTI_ALIGNMENT) ! 3
       = [107]
   \<and> length (soft (createWncf \<lparr>size_of_run = 2, max_d = 2, distance_type = ''edit'',
        traces = [(), ()], net = None\<rparr> (\<lambda>nm xs. 100 + sum_list xs) 5 [] [] ANTI_ALIGNMENT)) = 4
   \<and> wght (createWncf \<lparr>size_of_run = 2, max_d = 2, distance_type = ''edit'',
        traces = [(), ()], net = None\<rparr> (\<lambda>nm xs. 100 + sum_list xs) 5 [] [] ANTI_ALIGNMENT)
       = [-10, -10, -10, -10]"
proof -
  let ?S = "\<lparr>size_of_run = 2, max_d = 2, distance_type = ''edit'', traces = [(), ()], net = None\<rparr>"
  let ?g = "\<lambda>(nm::string) (xs::int list). 100 + sum_list xs"
  let ?W = "createWncf ?S ?g 5 [] [] ANTI_ALIGNMENT"
  have h: "(1::nat) < length (traces ?S)" by simp
  have a: "distance_type ?S = EDIT_DISTANCE" by (simp add: EDIT_DISTANCE_def)
  note t = C8_soft_unit_clauses [OF h, of ?g 5 "[]" "[]" ANTI_ALIGNMENT]
  from t have "distance_type ?S = EDIT_DISTANCE \<longrightarrow>
       length (soft ?W) = length (traces ?S) * nat (max_d ?S)
     \<and> wght ?W = replicate (length (traces ?S) * nat (max_d ?S)) WEIGHT_ON_CLAUSES_TO_REDUCE
     \<and> (\<forall>d. 1 \<le> d \<and> d \<le> max_d ?S \<longrightarrow>
          soft ?W ! (1 * nat (max_d ?S) + nat (d - 1))
            = [weightsOnVariables ANTI_ALIGNMENT * ?g BOOLEAN_VAR_EDIT_DISTANCE
                 [int 1, size_of_run ?S, size_of_run ?S, d]])"
    by (rule conjunct1)
  from mp [OF this a]
  have l: "length (soft ?W) = length (traces ?S) * nat (max_d ?S)"
    and w: "wght ?W = replicate (length (traces ?S) * nat (max_d ?S)) WEIGHT_ON_CLAUSES_TO_REDUCE"
    and n: "\<forall>d. 1 \<le> d \<and> d \<le> max_d ?S \<longrightarrow>
          soft ?W ! (1 * nat (max_d ?S) + nat (d - 1))
            = [weightsOnVariables ANTI_ALIGNMENT * ?g BOOLEAN_VAR_EDIT_DISTANCE
                 [int 1, size_of_run ?S, size_of_run ?S, d]]"
    by blast+
  from n have "1 \<le> (2::int) \<and> 2 \<le> max_d ?S \<longrightarrow>
          soft ?W ! (1 * nat (max_d ?S) + nat (2 - 1))
            = [weightsOnVariables ANTI_ALIGNMENT * ?g BOOLEAN_VAR_EDIT_DISTANCE
                 [int 1, size_of_run ?S, size_of_run ?S, 2]]"
    by (rule spec)
  then have n3: "soft ?W ! 3 = [107]"
    by (simp add: weightsOnVariables_def)
  from l have l4: "length (soft ?W) = 4" by simp
  from w have w4: "wght ?W = [-10, -10, -10, -10]"
    by (simp add: WEIGHT_ON_CLAUSES_TO_REDUCE_def numeral_eq_Suc)
  show ?thesis using h a n3 l4 w4 by (intro conjI)
qed

text \<open>
  C9. \<open>multiAlignment\<close> and \<open>antiAlignment\<close> store the caller's net in \<open>self.__net\<close> and
  leave it with the wait transition added: a new transition named and labelled \<open>w\<close>, and a
  pair of arcs between it and every place that had no outgoing arc. \<open>exactAlignment\<close> never
  assigns \<open>self.__net\<close>: on a fresh object it raises \<open>AttributeError\<close> and the caller's net
  is as before, and after an earlier call it changes the net of that call, not the net
  it was given.
\<close>

theorem C9_exactAlignment_ignores_its_net:
  "exactAlignment (self\<lparr>net := None\<rparr>) a store = Inl AttributeError
   \<and> exactAlignment (self\<lparr>net := Some b\<rparr>) a store
       = Inr (self\<lparr>net := Some b\<rparr>, store(b := fst (add_wait_net (store b))))
   \<and> multiAlignment self a store
       = Inr (self\<lparr>net := Some a\<rparr>, store(a := fst (add_wait_net (store a))))
   \<and> antiAlignment self a store
       = Inr (self\<lparr>net := Some a\<rparr>, store(a := fst (add_wait_net (store a))))
   \<and> transitions (fst (add_wait_net N)) = transitions N @ [snd (add_wait_net N)]
   \<and> name (snd (add_wait_net N)) = WAIT_TRANSITION
   \<and> label (snd (add_wait_net N)) = Some WAIT_TRANSITION
   \<and> exactAlignment \<lparr>size_of_run = 3, max_d = 10, distance_type = ''edit'',
         traces = [()], net = None\<rparr> 0 (\<lambda>a. example_net) = Inl AttributeError
   \<and> fst (add_wait_net example_net) =
       \<lparr>places = [\<lparr>name = ''source'', label = None, in_arcs = [],
                     out_arcs = [(PlaceRef ''source'', TransitionRef ''a'')]\<rparr>,
                   \<lparr>name = ''sink'', label = None,
                     in_arcs = [(TransitionRef ''a'', PlaceRef ''sink''),
                                (TransitionRef ''w'', PlaceRef ''sink'')],
                     out_arcs = [(PlaceRef ''sink'', TransitionRef ''w'')]\<rparr>],
        transitions = [\<lparr>name = ''a'', label = Some ''a'',
                          in_arcs = [(PlaceRef ''source'', TransitionRef ''a'')],
                          out_arcs = [(TransitionRef ''a'', PlaceRef ''sink'')]\<rparr>,
                       \<lparr>name = ''w'', label = Some ''w'',
                          in_arcs = [(PlaceRef ''sink'', TransitionRef ''w'')],
                          out_arcs = [(TransitionRef ''w'', PlaceRef ''sink'')]\<rparr>],
        arcs = [(PlaceRef ''source'', TransitionRef ''a''),
                (TransitionRef ''a'', PlaceRef ''sink''),
                (PlaceRef ''sink'', TransitionRef ''w''),
                (TransitionRef ''w'', PlaceRef ''sink'')]\<rparr>"
proof -
  have e: "exactAlignment (s\<lparr>net := None\<rparr>) a st = Inl AttributeError"
    for s :: "'x ConformanceArtefacts" and a st
    by (simp add: exactAlignment_def artefactsInitialisation_def)
  have e2: "exactAlignment (self\<lparr>net := Some b\<rparr>) a store
       = Inr (self\<lparr>net := Some b\<rparr>, store(b := fst (add_wait_net (store b))))"
    by (simp add: exactAlignment_def artefactsInitialisation_def)
  have m: "multiAlignment self a store
       = Inr (self\<lparr>net := Some a\<rparr>, store(a := fst (add_wait_net (store a))))"
    by (simp add: multiAlignment_def artefactsInitialisation_def)
  have an: "antiAlignment self a store
       = Inr (self\<lparr>net := Some a\<rparr>, store(a := fst (add_wait_net (store a))))"
    by (simp add: antiAlignment_def artefactsInitialisation_def)
  have c: "exactAlignment \<lparr>size_of_run = 3, max_d = 10, distance_type = ''edit'',
         traces = [()], net = None\<rparr> 0 (\<lambda>a. example_net) = Inl AttributeError"
    by (simp add: exactAlignment_def artefactsInitialisation_def)
  show ?thesis
    using e [of self a store] e2 m an add_wait_net_transitions [of N] c ex1
    by (intro conjI) simp_all
qed

text \<open>
  C10. For all literal lists \<open>P\<close>, \<open>N\<close> and every list of sub-formulas \<open>G\<close>, compiling
  \<open>Or P N [Or [] [] G]\<close> gives the same clauses and the same final counter as compiling
  \<open>Or P N G\<close>: the unwrapping of a single literal-free OR child does not look at the
  children of that child.
\<close>

theorem C10_single_child_unwrap:
  "operatorToCnf (Or P N [Or [] [] G]) n = operatorToCnf (Or P N G) n"
  by (simp add: operatorToCnf_def aux_Or_unwrap)

end
